theory Spec2Isabelle
  imports Complex_Main "HOL-Library.Log_Nat"
begin

section \<open>Python strings and the Unicode character database\<close>

text \<open>
  A Python \<^verbatim>\<open>str\<close> is a sequence of Unicode code points. The functions of
  \<^verbatim>\<open>backend/main.py\<close> use three services of the interpreter that consult the
  Unicode character database: \<^verbatim>\<open>str.lower\<close>, the regular-expression classes
  \<^verbatim>\<open>\w\<close> and \<^verbatim>\<open>\s\<close>, and \<^verbatim>\<open>str.split\<close>. The database is not part of
  the repository, so it is a parameter of the model: a record of the lookups that CPython
  performs.
\<close>

type_synonym cp = nat

type_synonym pystr = "cp list"

record ucd =
  to_lower_full :: "cp \<Rightarrow> cp list"
  is_cased :: "cp \<Rightarrow> bool"
  is_case_ignorable :: "cp \<Rightarrow> bool"
  is_alnum :: "cp \<Rightarrow> bool"
  is_space :: "cp \<Rightarrow> bool"
  is_upper :: "cp \<Rightarrow> bool"

text \<open>
  \<^verbatim>\<open>str.lower()\<close> maps every code point through the full lower-case mapping (one
  code point may become several), except GREEK CAPITAL LETTER SIGMA (U+03A3), which becomes
  the final sigma U+03C2 when it is preceded by a cased letter and not followed by one
  (case-ignorable code points skipped on both sides), and U+03C3 otherwise. The scan reads
  the original string: \<open>left\<close> is the prefix in reverse, \<open>right\<close> the suffix.
\<close>

definition handle_capital_sigma :: "ucd \<Rightarrow> cp list \<Rightarrow> cp list \<Rightarrow> cp" where
  "handle_capital_sigma U left right =
     (let final_sigma =
            (case dropWhile (is_case_ignorable U) left of
               [] \<Rightarrow> False
             | c # _ \<Rightarrow> is_cased U c);
          final_sigma =
            (if final_sigma
             then (case dropWhile (is_case_ignorable U) right of
                     [] \<Rightarrow> True
                   | c # _ \<Rightarrow> \<not> is_cased U c)
             else final_sigma)
      in if final_sigma then 0x3C2 else 0x3C3)"

definition lower_ucs4 :: "ucd \<Rightarrow> cp list \<Rightarrow> cp \<Rightarrow> cp list \<Rightarrow> cp list" where
  "lower_ucs4 U left c right =
     (if c = 0x3A3 then [handle_capital_sigma U left right]
      else to_lower_full U c)"

fun do_lower :: "ucd \<Rightarrow> cp list \<Rightarrow> cp list \<Rightarrow> cp list" where
  "do_lower U left [] = []"
| "do_lower U left (c # right) =
     lower_ucs4 U left c right @ do_lower U (c # left) right"

definition str_lower :: "ucd \<Rightarrow> pystr \<Rightarrow> pystr" where
  "str_lower U text = do_lower U [] text"

text \<open>
  The pattern \<^verbatim>\<open>[^\w\s']\<close>: \<^verbatim>\<open>\w\<close> is an alphanumeric code point or the
  underscore, \<^verbatim>\<open>\s\<close> a white-space code point; the class is negated. Every match is
  one code point and is replaced by the empty string.
\<close>

definition word_char :: "ucd \<Rightarrow> cp \<Rightarrow> bool" where
  "word_char U c \<longleftrightarrow> is_alnum U c \<or> c = 0x5F"

definition punct_class :: "ucd \<Rightarrow> cp \<Rightarrow> bool" where
  "punct_class U c \<longleftrightarrow> \<not> (word_char U c \<or> is_space U c \<or> c = 0x27)"

definition re_sub_punct :: "ucd \<Rightarrow> pystr \<Rightarrow> pystr" where
  "re_sub_punct U text = filter (\<lambda>c. \<not> punct_class U c) text"

text \<open>
  \<^verbatim>\<open>text.split()\<close> without arguments: maximal runs of code points that are not white
  space, in order; \<open>w\<close> is the run being collected.
\<close>

fun split_from :: "ucd \<Rightarrow> pystr \<Rightarrow> pystr \<Rightarrow> pystr list" where
  "split_from U w [] = (if w = [] then [] else [w])"
| "split_from U w (c # cs) =
     (if is_space U c
      then (if w = [] then split_from U [] cs else w # split_from U [] cs)
      else split_from U (w @ [c]) cs)"

definition str_split :: "ucd \<Rightarrow> pystr \<Rightarrow> pystr list" where
  "str_split U text = split_from U [] text"

fun str_join :: "pystr \<Rightarrow> pystr list \<Rightarrow> pystr" where
  "str_join sep [] = []"
| "str_join sep [w] = w"
| "str_join sep (w # ws) = w @ sep @ str_join sep ws"

section \<open>Normalisation and word evaluation\<close>

definition normalize_text :: "ucd \<Rightarrow> pystr \<Rightarrow> pystr" where
  "normalize_text U text =
     (let text = str_lower U text;
          text = re_sub_punct U text;
          text = str_join [0x20] (str_split U text)
      in text)"

record WordEvaluation =
  word :: pystr
  correct :: bool

fun evaluate_loop :: "pystr list \<Rightarrow> pystr list \<Rightarrow> WordEvaluation list \<Rightarrow> WordEvaluation list" where
  "evaluate_loop transcribed_words [] evaluations = evaluations"
| "evaluate_loop transcribed_words (expected_word # rest) evaluations =
     (let is_correct = (expected_word \<in> set transcribed_words)
      in evaluate_loop transcribed_words rest
           (evaluations @ [\<lparr>word = expected_word, correct = is_correct\<rparr>]))"

definition evaluate_words :: "ucd \<Rightarrow> pystr \<Rightarrow> pystr \<Rightarrow> WordEvaluation list" where
  "evaluate_words U transcribed expected =
     (let transcribed_normalized = normalize_text U transcribed;
          expected_normalized = normalize_text U expected;
          transcribed_words = str_split U transcribed_normalized;
          expected_words = str_split U expected_normalized
      in evaluate_loop transcribed_words expected_words [])"

section \<open>The phrase catalogue\<close>

record Phrase =
  id' :: int
  phrase :: pystr
  translation :: pystr

text \<open>A string literal whose characters are read as Latin-1 code points.\<close>

definition str :: "string \<Rightarrow> pystr" where
  "str s = map of_char s"

definition PORTUGUESE_PHRASES :: "Phrase list" where
  "PORTUGUESE_PHRASES =
     [\<lparr>id' = 1, phrase = str (''Ol'' @ [CHR 0xE1] @ '', como vai?''),
        translation = str ''Hello, how are you?''\<rparr>,
      \<lparr>id' = 2, phrase = str ''Bom dia'', translation = str ''Good morning''\<rparr>,
      \<lparr>id' = 3, phrase = str ''Obrigado'', translation = str ''Thank you''\<rparr>,
      \<lparr>id' = 4, phrase = str ''Por favor'', translation = str ''Please''\<rparr>,
      \<lparr>id' = 5, phrase = str ''Como se chama?'', translation = str ''What is your name?''\<rparr>,
      \<lparr>id' = 6, phrase = str ''Muito prazer'', translation = str ''Nice to meet you''\<rparr>,
      \<lparr>id' = 7, phrase = str (''At'' @ [CHR 0xE9] @ '' logo''),
        translation = str ''See you later''\<rparr>,
      \<lparr>id' = 8, phrase = str ''Boa noite'', translation = str ''Good night''\<rparr>,
      \<lparr>id' = 9, phrase = str (''Eu n'' @ [CHR 0xE3] @ ''o entendo''),
        translation = str (''I don'' @ [CHR 0x27] @ ''t understand'')\<rparr>,
      \<lparr>id' = 10, phrase = str (''Voc'' @ [CHR 0xEA] @ '' fala ingl'' @ [CHR 0xEA] @ ''s?''),
        translation = str ''Do you speak English?''\<rparr>]"

text \<open>An \<^verbatim>\<open>HTTPException\<close> carries its status code and its detail message.\<close>

datatype http_error = HTTPException int pystr

definition get_phrases :: "Phrase list" where
  "get_phrases = PORTUGUESE_PHRASES"

fun find_phrase :: "Phrase list \<Rightarrow> int \<Rightarrow> http_error + Phrase" where
  "find_phrase [] phrase_id = Inl (HTTPException 404 (str ''Phrase not found''))"
| "find_phrase (p # ps) phrase_id =
     (if id' p = phrase_id then Inr p else find_phrase ps phrase_id)"

definition get_phrase :: "int \<Rightarrow> http_error + Phrase" where
  "get_phrase phrase_id = find_phrase PORTUGUESE_PHRASES phrase_id"

section \<open>Double-precision arithmetic\<close>

text \<open>
  Python's \<^verbatim>\<open>float\<close> is the IEEE 754 binary64 format. A finite double is modelled by its
  exact value, a rational number; every operation computes the exact result and rounds it
  to the nearest double, ties to the even significand. \<open>rne\<close> rounds a rational to the
  nearest integer, ties to even; \<open>ilog2 q\<close> is the exponent \<open>e\<close> with
  \<open>2^e \<le> q < 2^(e+1)\<close> for positive \<open>q\<close>; a double has 53 significant bits and its
  last bit weighs at least \<open>2^-1074\<close>. Overflow is not modelled: the values of this program
  lie between 0 and 100.
\<close>

definition rne :: "rat \<Rightarrow> int" where
  "rne q = (let f = \<lfloor>q\<rfloor>; r = q - of_int f
            in if r < 1 / 2 then f
               else if 1 / 2 < r then f + 1
               else if even f then f else f + 1)"

definition pow2 :: "int \<Rightarrow> rat" where
  "pow2 k = (if 0 \<le> k then 2 ^ nat k else 1 / 2 ^ nat (- k))"

definition ilog2 :: "rat \<Rightarrow> int" where
  "ilog2 q = (let (a, b) = quotient_of q; d = bitlen a - bitlen b
              in if pow2 d \<le> q then d else d - 1)"

definition to_double :: "rat \<Rightarrow> rat" where
  "to_double q =
     (if q = 0 then 0
      else let e = max (ilog2 \<bar>q\<bar> - 52) (- 1074); u = pow2 e
           in of_int (rne (q / u)) * u)"

text \<open>
  \<^verbatim>\<open>a / b\<close> on two integers is the correctly rounded quotient; \<^verbatim>\<open>x * y\<close> the correctly
  rounded product; \<^verbatim>\<open>round(x, 1)\<close> rounds the exact value of \<open>x\<close> to one decimal
  place, ties to even, and returns the double nearest to that decimal.
\<close>

definition float_div :: "nat \<Rightarrow> nat \<Rightarrow> rat" where
  "float_div a b = to_double (of_nat a / of_nat b)"

definition float_mul :: "rat \<Rightarrow> rat \<Rightarrow> rat" where
  "float_mul x y = to_double (x * y)"

definition round1 :: "rat \<Rightarrow> rat" where
  "round1 x = to_double (of_int (rne (x * 10)) / 10)"

section \<open>The transcription request handler\<close>

record TranscriptionResponse =
  transcribed_text :: pystr
  expected_phrase :: pystr
  word_evaluations :: "WordEvaluation list"
  overall_score :: rat
  all_correct :: bool

text \<open>
  What the handler receives from outside: the outcome of reading the upload (the bytes, or
  an exception), and the speech-to-text provider. A Python exception is modelled by its
  message \<^verbatim>\<open>str(e)\<close>. The provider's answer is an object that may or may not have a
  \<^verbatim>\<open>text\<close> attribute, and has a string rendering. The provider is a black box that may
  answer differently each time it is called: \<open>convert k\<close> is its answer to call number
  \<open>k\<close>, and the handler is given, and returns, the number of calls made so far.
\<close>

datatype exn = Exception pystr

type_synonym bytes = "nat list"

datatype transcription = Transcription (text_attr: "pystr option") (as_str: pystr)

type_synonym provider = "nat \<Rightarrow> bytes \<Rightarrow> exn + transcription"

text \<open>Lines 154 to 171: the response computed from the provider's answer.\<close>

definition transcription_response :: "ucd \<Rightarrow> transcription \<Rightarrow> pystr \<Rightarrow> TranscriptionResponse" where
  "transcription_response U transcription expected =
     (let text = (case text_attr transcription of
                    Some t \<Rightarrow> t
                  | None \<Rightarrow> as_str transcription);
          evaluations = evaluate_words U text expected;
          correct_count = length (filter correct evaluations);
          total_count = length evaluations;
          score = (if total_count > 0
                   then float_mul (float_div correct_count total_count) 100
                   else 0);
          all_ok = (correct_count = total_count)
      in \<lparr>transcribed_text = text,
          expected_phrase = expected,
          word_evaluations = evaluations,
          overall_score = round1 score,
          all_correct = all_ok\<rparr>)"

text \<open>The body of the \<^verbatim>\<open>try\<close> block: the first exception ends it.\<close>

definition transcribe_try ::
  "ucd \<Rightarrow> provider \<Rightarrow> nat \<Rightarrow> exn + bytes \<Rightarrow> pystr \<Rightarrow> (exn + TranscriptionResponse) \<times> nat" where
  "transcribe_try U convert calls audio_read expected =
     (case audio_read of
        Inl e \<Rightarrow> (Inl e, calls)
      | Inr audio_content \<Rightarrow>
          (case convert calls audio_content of
             Inl e \<Rightarrow> (Inl e, calls + 1)
           | Inr transcription \<Rightarrow>
               (Inr (transcription_response U transcription expected), calls + 1)))"

definition transcribe_audio ::
  "ucd \<Rightarrow> provider \<Rightarrow> nat \<Rightarrow> exn + bytes \<Rightarrow> pystr \<Rightarrow> (http_error + TranscriptionResponse) \<times> nat" where
  "transcribe_audio U convert calls audio_read expected =
     (case transcribe_try U convert calls audio_read expected of
        (Inl (Exception msg), calls') \<Rightarrow>
          (Inl (HTTPException 500 (str ''Transcription failed: '' @ msg)), calls')
      | (Inr response, calls') \<Rightarrow> (Inr response, calls'))"

section \<open>Rows of the Unicode character database\<close>

text \<open>
  The rows of the database for Basic Latin and the Latin-1 Supplement (U+0000 to U+00FF),
  which cover every phrase of the catalogue, and for five further code points: U+0130
  (whose lower case is two code points), U+0307, the Greek sigmas U+03A3, U+03C2, U+03C3,
  and U+2102 DOUBLE-STRUCK CAPITAL C (an upper-case letter without a lower-case mapping).
  Other rows are not modelled: there the lookups below answer with the defaults (no
  mapping, no property), and the concrete evaluations in this theory use covered code
  points only.
\<close>

definition latin1_upper :: "cp \<Rightarrow> bool" where
  "latin1_upper c \<longleftrightarrow>
     (0x41 \<le> c \<and> c \<le> 0x5A) \<or> (0xC0 \<le> c \<and> c \<le> 0xD6) \<or> (0xD8 \<le> c \<and> c \<le> 0xDE)"

definition latin1_lower :: "cp \<Rightarrow> bool" where
  "latin1_lower c \<longleftrightarrow>
     (0x61 \<le> c \<and> c \<le> 0x7A) \<or> c = 0xAA \<or> c = 0xB5 \<or> c = 0xBA \<or>
     (0xDF \<le> c \<and> c \<le> 0xF6) \<or> (0xF8 \<le> c \<and> c \<le> 0xFF)"

definition py_to_lower_full :: "cp \<Rightarrow> cp list" where
  "py_to_lower_full c =
     (if latin1_upper c then [c + 32]
      else if c = 0x130 then [0x69, 0x307]
      else if c = 0x3A3 then [0x3C3]
      else [c])"

definition py_is_cased :: "cp \<Rightarrow> bool" where
  "py_is_cased c \<longleftrightarrow>
     latin1_upper c \<or> latin1_lower c \<or> c \<in> {0x130, 0x3A3, 0x3C2, 0x3C3, 0x2102}"

definition py_is_case_ignorable :: "cp \<Rightarrow> bool" where
  "py_is_case_ignorable c \<longleftrightarrow>
     c \<in> {0x27, 0x2E, 0x3A, 0x5E, 0x60, 0xA8, 0xAD, 0xAF, 0xB4, 0xB7, 0xB8, 0x307}"

definition py_is_alnum :: "cp \<Rightarrow> bool" where
  "py_is_alnum c \<longleftrightarrow>
     (0x30 \<le> c \<and> c \<le> 0x39) \<or> latin1_upper c \<or> latin1_lower c \<or>
     c \<in> {0xB2, 0xB3, 0xB9, 0xBC, 0xBD, 0xBE} \<or>
     c \<in> {0x130, 0x3A3, 0x3C2, 0x3C3, 0x2102}"

definition py_is_space :: "cp \<Rightarrow> bool" where
  "py_is_space c \<longleftrightarrow>
     (0x09 \<le> c \<and> c \<le> 0x0D) \<or> (0x1C \<le> c \<and> c \<le> 0x20) \<or> c = 0x85 \<or> c = 0xA0"

definition py_is_upper :: "cp \<Rightarrow> bool" where
  "py_is_upper c \<longleftrightarrow> latin1_upper c \<or> c \<in> {0x130, 0x3A3, 0x2102}"

definition py_ucd :: ucd where
  "py_ucd = \<lparr>to_lower_full = py_to_lower_full, is_cased = py_is_cased,
              is_case_ignorable = py_is_case_ignorable, is_alnum = py_is_alnum,
              is_space = py_is_space, is_upper = py_is_upper\<rparr>"

section \<open>Assumptions on the character database\<close>

text \<open>
  Two facts about the Unicode character database are used below, as hypotheses on the
  parameter. A code point is \<open>lower_fixed\<close> when \<^verbatim>\<open>str.lower\<close> leaves it alone in every
  context. The database is \<open>lower_stable\<close> when lower-casing produces only such code
  points: the lower-case mapping of a code point never contains a code point that has
  itself a different lower case.
\<close>

definition lower_fixed :: "ucd \<Rightarrow> cp \<Rightarrow> bool" where
  "lower_fixed U c \<longleftrightarrow> c \<noteq> 0x3A3 \<and> to_lower_full U c = [c]"

definition lower_stable :: "ucd \<Rightarrow> bool" where
  "lower_stable U \<longleftrightarrow>
     (\<forall>c. c \<noteq> 0x3A3 \<longrightarrow> (\<forall>d \<in> set (to_lower_full U c). lower_fixed U d)) \<and>
     lower_fixed U 0x3C2 \<and> lower_fixed U 0x3C3"

section \<open>The normaliser in the words of the specification\<close>

text \<open>
  The specification describes the normaliser in three steps: lower-case the string; delete
  every code point that is not a letter, a number, the underscore, white space or the
  apostrophe; replace every run of white space by one space and trim the white space at
  both ends. \<open>spec_normalize\<close> is this description, to be compared with
  \<open>normalize_text\<close>.
\<close>

definition spec_delete :: "ucd \<Rightarrow> pystr \<Rightarrow> pystr" where
  "spec_delete U text =
     filter (\<lambda>c. is_alnum U c \<or> c = 0x5F \<or> is_space U c \<or> c = 0x27) text"

fun spec_collapse :: "ucd \<Rightarrow> pystr \<Rightarrow> pystr" where
  "spec_collapse U [] = []"
| "spec_collapse U [c] = [if is_space U c then 0x20 else c]"
| "spec_collapse U (c # d # cs) =
     (if is_space U c
      then (if is_space U d then spec_collapse U (d # cs) else 0x20 # spec_collapse U (d # cs))
      else c # spec_collapse U (d # cs))"

definition spec_trim :: "ucd \<Rightarrow> pystr \<Rightarrow> pystr" where
  "spec_trim U text = rev (dropWhile (is_space U) (rev (dropWhile (is_space U) text)))"

definition spec_normalize :: "ucd \<Rightarrow> pystr \<Rightarrow> pystr" where
  "spec_normalize U text = spec_trim U (spec_collapse U (spec_delete U (str_lower U text)))"

text \<open>
  The score in the words of the specification, evaluated as Python evaluates the formula
  \<^verbatim>\<open>round(100 * count / len, 1)\<close>: the product is an integer, the quotient is one
  correctly rounded division.
\<close>

definition spec_overall_score :: "nat \<Rightarrow> nat \<Rightarrow> rat" where
  "spec_overall_score c t = (if t = 0 then 0 else round1 (float_div (100 * c) t))"

section \<open>Providers for the examples\<close>

text \<open>
  A provider that answers call number \<open>k\<close> with the \<open>k\<close>-th entry of a script, and the
  answer of a provider that heard a given text.
\<close>

definition scripted_provider :: "(exn + transcription) list \<Rightarrow> provider" where
  "scripted_provider answers k audio =
     (if k < length answers then answers ! k else Inl (Exception (str ''no answer'')))"

definition heard :: "pystr \<Rightarrow> exn + transcription" where
  "heard t = Inr (Transcription (Some t) t)"

text \<open>An expected phrase of 80 words: 23 times "a", then 57 times "b".\<close>

definition eighty_words :: pystr where
  "eighty_words = concat (replicate 23 (str ''a '')) @ concat (replicate 57 (str ''b ''))"

section \<open>Splitting, joining and lower-casing\<close>

lemma evaluate_loop_map:
  "evaluate_loop tw ws evs = evs @ map (\<lambda>w. \<lparr>word = w, correct = (w \<in> set tw)\<rparr>) ws"
  by (induction ws arbitrary: evs) simp_all

lemmas ucd_rows = py_ucd_def py_to_lower_full_def py_is_cased_def py_is_case_ignorable_def
  py_is_alnum_def py_is_space_def py_is_upper_def latin1_upper_def latin1_lower_def

lemmas normalize_eval = normalize_text_def str_def str_lower_def lower_ucs4_def
  handle_capital_sigma_def re_sub_punct_def punct_class_def word_char_def str_split_def Let_def

lemma py_ucd_space: "is_space py_ucd 0x20"
  by (simp add: ucd_rows)

lemma py_ucd_space_fixed: "lower_fixed py_ucd 0x20"
  by (simp add: lower_fixed_def ucd_rows)

lemma py_ucd_stable: "lower_stable py_ucd"
  by (auto simp: lower_stable_def lower_fixed_def ucd_rows split: if_splits)

lemma split_from_append:
  "\<forall>c \<in> set a. \<not> is_space U c \<Longrightarrow> split_from U w (a @ s) = split_from U (w @ a) s"
  by (induction a arbitrary: w) simp_all

lemma split_from_tokens:
  "t \<in> set (split_from U w s) \<Longrightarrow> \<forall>c \<in> set w. \<not> is_space U c \<Longrightarrow>
     t \<noteq> [] \<and> (\<forall>c \<in> set t. \<not> is_space U c)"
proof (induction s arbitrary: w)
  case Nil
  then show ?case by (cases "w = []") simp_all
next
  case (Cons c s)
  show ?case
  proof (cases "is_space U c")
    case True
    then have "t = w \<and> w \<noteq> [] \<or> t \<in> set (split_from U [] s)"
      using Cons.prems(1) by (cases "w = []") simp_all
    then show ?thesis
      using Cons.IH [of "[]"] Cons.prems(2) by auto
  next
    case False
    then have "t \<in> set (split_from U (w @ [c]) s)"
      using Cons.prems(1) by simp
    then show ?thesis
      using Cons.IH [of "w @ [c]"] Cons.prems(2) False by simp
  qed
qed

lemma split_from_chars:
  "t \<in> set (split_from U w s) \<Longrightarrow> set t \<subseteq> set w \<union> set s"
proof (induction s arbitrary: w)
  case Nil
  then show ?case by (cases "w = []") simp_all
next
  case (Cons c s)
  show ?case
  proof (cases "is_space U c")
    case True
    then have "t = w \<or> t \<in> set (split_from U [] s)"
      using Cons.prems by (cases "w = []") simp_all
    then show ?thesis
      using Cons.IH [of "[]"] by auto
  next
    case False
    then have "t \<in> set (split_from U (w @ [c]) s)"
      using Cons.prems by simp
    then show ?thesis
      using Cons.IH [of "w @ [c]"] by auto
  qed
qed

lemma str_split_tokens:
  "t \<in> set (str_split U s) \<Longrightarrow> t \<noteq> [] \<and> (\<forall>c \<in> set t. \<not> is_space U c) \<and> set t \<subseteq> set s"
  using split_from_tokens [of t U "[]" s] split_from_chars [of t U "[]" s]
  by (simp add: str_split_def)

lemma split_join:
  "is_space U sp \<Longrightarrow> \<forall>w \<in> set ws. w \<noteq> [] \<and> (\<forall>c \<in> set w. \<not> is_space U c) \<Longrightarrow>
     str_split U (str_join [sp] ws) = ws"
proof (induction "[sp]" ws rule: str_join.induct)
  case 1
  then show ?case by (simp add: str_split_def)
next
  case (2 w)
  then show ?case
    using split_from_append [of w U "[]" "[]"] by (simp add: str_split_def)
next
  case (3 w v ws)
  then have "str_split U (str_join [sp] (v # ws)) = v # ws" by simp
  moreover have "split_from U [] (w @ sp # str_join [sp] (v # ws))
      = split_from U w (sp # str_join [sp] (v # ws))"
    using 3 split_from_append [of w U "[]"] by simp
  ultimately show ?case using 3 by (simp add: str_split_def)
qed

lemma split_normalize:
  "is_space U 0x20 \<Longrightarrow>
     str_split U (normalize_text U x) = str_split U (re_sub_punct U (str_lower U x))"
  using split_join [of U "0x20" "str_split U (re_sub_punct U (str_lower U x))"] str_split_tokens [of _ U]
  by (simp add: normalize_text_def)

lemma join_chars: "set (str_join sep ws) \<subseteq> set sep \<union> \<Union> (set ` set ws)"
  by (induction sep ws rule: str_join.induct) auto

lemma do_lower_fixed: "\<forall>c \<in> set s. lower_fixed U c \<Longrightarrow> do_lower U l s = s"
  by (induction s arbitrary: l) (simp_all add: lower_ucs4_def lower_fixed_def)

lemma sigma_cases: "handle_capital_sigma U l r = 0x3C2 \<or> handle_capital_sigma U l r = 0x3C3"
  by (simp add: handle_capital_sigma_def Let_def)

lemma do_lower_image: "lower_stable U \<Longrightarrow> d \<in> set (do_lower U l s) \<Longrightarrow> lower_fixed U d"
proof (induction s arbitrary: l)
  case Nil
  then show ?case by simp
next
  case (Cons c s)
  then show ?case
    using sigma_cases [of U l s]
    by (auto simp: lower_ucs4_def lower_stable_def split: if_splits)
qed

lemma normalize_chars:
  assumes "c \<in> set (normalize_text U x)"
  shows "c = 0x20 \<or> (c \<in> set (str_lower U x) \<and> \<not> punct_class U c)"
proof -
  let ?f = "re_sub_punct U (str_lower U x)"
  from assms have "c \<in> set [0x20] \<union> \<Union> (set ` set (str_split U ?f))"
    using join_chars [of "[0x20]" "str_split U ?f"] by (auto simp: normalize_text_def)
  then show ?thesis
    using str_split_tokens [of _ U ?f] by (auto simp: re_sub_punct_def)
qed

lemma normalize_idem:
  assumes sp: "is_space U 0x20" and lf: "lower_fixed U 0x20" and st: "lower_stable U"
  shows "normalize_text U (normalize_text U x) = normalize_text U x"
proof -
  let ?y = "normalize_text U x"
  let ?ws = "str_split U (re_sub_punct U (str_lower U x))"
  have chars: "\<forall>c \<in> set ?y. lower_fixed U c \<and> \<not> punct_class U c"
    using normalize_chars [of _ U x] do_lower_image [OF st, of _ "[]" x] sp lf
    by (auto simp: str_lower_def punct_class_def)
  then have "str_lower U ?y = ?y"
    by (simp add: str_lower_def do_lower_fixed)
  moreover have "re_sub_punct U ?y = ?y"
    using chars by (simp add: re_sub_punct_def)
  moreover have "str_split U ?y = ?ws"
    by (rule split_normalize [OF sp])
  ultimately have "normalize_text U ?y = str_join [0x20] ?ws"
    by (simp add: normalize_text_def)
  then show ?thesis by (simp add: normalize_text_def)
qed


lemma collapse_nonspace: "\<not> is_space U c \<Longrightarrow> spec_collapse U (c # s) = c # spec_collapse U s"
  by (cases s) simp_all

lemma collapse_space:
  "is_space U 0x20 \<Longrightarrow> is_space U c \<Longrightarrow>
     spec_collapse U (c # s) = 0x20 # dropWhile (is_space U) (spec_collapse U s)"
proof (induction s arbitrary: c)
  case Nil
  then show ?case by simp
next
  case (Cons d s)
  show ?case
  proof (cases "is_space U d")
    case True
    then show ?thesis using Cons by simp
  next
    case False
    then show ?thesis using Cons.prems by (simp add: collapse_nonspace)
  qed
qed

lemma trim_right_Cons:
  "rev (dropWhile P (rev (x # t))) =
     (if rev (dropWhile P (rev t)) = [] \<and> P x then [] else x # rev (dropWhile P (rev t)))"
  by (auto simp: dropWhile_append split: if_splits) 

lemma join_Cons: "str_join sep (w # ws) = (if ws = [] then w else w @ sep @ str_join sep ws)"
  by (cases ws) simp_all

lemma join_empty: "\<forall>w \<in> set ws. w \<noteq> [] \<Longrightarrow> str_join sep ws = [] \<longleftrightarrow> ws = []"
  by (cases ws) (simp_all add: join_Cons)

lemma join_split_collapse:
  assumes sp: "is_space U 0x20"
  shows "(w \<noteq> [] \<longrightarrow> (\<forall>c \<in> set w. \<not> is_space U c) \<longrightarrow>
            str_join [0x20] (split_from U w s) =
              w @ rev (dropWhile (is_space U) (rev (spec_collapse U s)))) \<and>
         str_join [0x20] (split_from U [] s) = spec_trim U (spec_collapse U s)"
proof (induction s arbitrary: w)
  case Nil
  then show ?case by (simp add: spec_trim_def)
next
  case (Cons c s)
  let ?X = "dropWhile (is_space U) (spec_collapse U s)"
  have B: "str_join [0x20] (split_from U [] s) = rev (dropWhile (is_space U) (rev ?X))"
    using Cons.IH [of "[]"] by (simp add: spec_trim_def)
  show ?case
  proof (cases "is_space U c")
    case True
    have col: "spec_collapse U (c # s) = 0x20 # ?X"
      using collapse_space [OF sp True] .
    have tok: "\<forall>t \<in> set (split_from U [] s). t \<noteq> []"
      using split_from_tokens [of _ U "[]" s] by simp
    have emp: "split_from U [] s = [] \<longleftrightarrow> rev (dropWhile (is_space U) (rev ?X)) = []"
      using join_empty [OF tok, of "[0x20]"] B by simp
    have A: "w \<noteq> [] \<Longrightarrow> str_join [0x20] (split_from U w (c # s)) =
              w @ rev (dropWhile (is_space U) (rev (spec_collapse U (c # s))))"
      using True sp B emp by (simp add: col trim_right_Cons join_Cons del: rev.simps)
    have "str_join [0x20] (split_from U [] (c # s)) = spec_trim U (spec_collapse U (c # s))"
      using True sp B by (simp add: col spec_trim_def del: rev.simps)
    then show ?thesis using A by simp
  next
    case False
    have col: "spec_collapse U (c # s) = c # spec_collapse U s"
      using collapse_nonspace [OF False] .
    have A: "w \<noteq> [] \<Longrightarrow> (\<forall>c \<in> set w. \<not> is_space U c) \<Longrightarrow>
              str_join [0x20] (split_from U w (c # s)) =
              w @ rev (dropWhile (is_space U) (rev (spec_collapse U (c # s))))"
      using False Cons.IH [of "w @ [c]"] by (simp add: col trim_right_Cons del: rev.simps)
    have "str_join [0x20] (split_from U [] (c # s)) = spec_trim U (spec_collapse U (c # s))"
      using False Cons.IH [of "[c]"] by (simp add: col spec_trim_def trim_right_Cons del: rev.simps)
    then show ?thesis using A by simp
  qed
qed

section \<open>Properties of the word evaluator\<close>

text \<open>
  Claim C1. For every transcribed and every expected string, \<open>evaluate_words\<close> returns one
  evaluation per word of the normalised expected string, in that string's word order; the
  evaluation of a word is marked correct exactly when the word occurs among the words of
  the normalised transcribed string. When the expected string normalises to no word, the
  result is the empty list.
\<close>

theorem evaluate_words_per_word:
  "evaluate_words U transcribed expected =
     map (\<lambda>w. \<lparr>word = w, correct = (w \<in> set (str_split U (normalize_text U transcribed)))\<rparr>)
       (str_split U (normalize_text U expected)) \<and>
   (str_split U (normalize_text U expected) = [] \<longrightarrow>
      evaluate_words U transcribed expected = [])"
  by (simp add: evaluate_words_def evaluate_loop_map)

theorem evaluate_words_per_word_witness:
  "evaluate_words py_ucd (str ''Bom'') (str ''Bom dia!'') =
     [\<lparr>word = str ''bom'', correct = True\<rparr>, \<lparr>word = str ''dia'', correct = False\<rparr>] \<and>
   str_split py_ucd (normalize_text py_ucd (str ''?!'')) = [] \<and>
   evaluate_words py_ucd (str ''Bom'') (str ''?!'') = []"
  using evaluate_words_per_word [of py_ucd "str ''Bom''" "str ''Bom dia!''"]
    evaluate_words_per_word [of py_ucd "str ''Bom''" "str ''?!''"]
  by (simp add: normalize_eval ucd_rows)

text \<open>
  Claim C6. The result depends on the transcribed string only through the set of its
  normalised words: two transcriptions with the same set of words (so any permutation or
  duplication of the words) give the same evaluations, and every evaluation is correct
  exactly when its word belongs to that set, however often the word occurs in the expected
  phrase. Expected "Bom dia" against "dia bom" gives two evaluations, both correct;
  expected "a a" against "a" gives two evaluations, both correct.
\<close>

theorem evaluate_words_token_set:
  "(set (str_split U (normalize_text U t1)) = set (str_split U (normalize_text U t2)) \<longrightarrow>
      evaluate_words U t1 expected = evaluate_words U t2 expected) \<and>
   (\<forall>ev \<in> set (evaluate_words U t1 expected).
      correct ev = (word ev \<in> set (str_split U (normalize_text U t1)))) \<and>
   evaluate_words py_ucd (str ''dia bom'') (str ''Bom dia'') =
     [\<lparr>word = str ''bom'', correct = True\<rparr>, \<lparr>word = str ''dia'', correct = True\<rparr>] \<and>
   evaluate_words py_ucd (str ''a'') (str ''a a'') =
     [\<lparr>word = str ''a'', correct = True\<rparr>, \<lparr>word = str ''a'', correct = True\<rparr>]"
proof -
  have "evaluate_words py_ucd (str ''dia bom'') (str ''Bom dia'') =
     [\<lparr>word = str ''bom'', correct = True\<rparr>, \<lparr>word = str ''dia'', correct = True\<rparr>]"
    by (simp add: evaluate_words_def normalize_eval ucd_rows)
  moreover have "evaluate_words py_ucd (str ''a'') (str ''a a'') =
     [\<lparr>word = str ''a'', correct = True\<rparr>, \<lparr>word = str ''a'', correct = True\<rparr>]"
    by (simp add: evaluate_words_def normalize_eval ucd_rows)
  ultimately show ?thesis
    by (auto simp: evaluate_words_def evaluate_loop_map)
qed

theorem evaluate_words_token_set_witness:
  "evaluate_words py_ucd (str ''bom dia'') (str ''Bom dia, Ana'') =
   evaluate_words py_ucd (str ''Dia, dia... BOM!'') (str ''Bom dia, Ana'') \<and>
   evaluate_words py_ucd (str ''bom dia'') (str ''Bom dia, Ana'') =
     [\<lparr>word = str ''bom'', correct = True\<rparr>, \<lparr>word = str ''dia'', correct = True\<rparr>,
      \<lparr>word = str ''ana'', correct = False\<rparr>]"
proof -
  have "set (str_split py_ucd (normalize_text py_ucd (str ''bom dia''))) =
        set (str_split py_ucd (normalize_text py_ucd (str ''Dia, dia... BOM!'')))"
    by (simp add: normalize_eval ucd_rows insert_commute)
  then show ?thesis
    using evaluate_words_token_set [of py_ucd "str ''bom dia''" "str ''Dia, dia... BOM!''"
        "str ''Bom dia, Ana''"]
    by (simp add: evaluate_words_def normalize_eval ucd_rows)
qed

text \<open>
  Claim C10, as the code has it. Every word that \<open>evaluate_words\<close> returns is a fixed point
  of the normaliser: it is not empty, it has no white space, every code point of it is
  alphanumeric, the underscore or the apostrophe, and lower-casing changes none of its code
  points. The hypotheses are on the character database only.
\<close>

theorem word_canonical:
  assumes sp: "is_space U 0x20" and st: "lower_stable U"
    and ev: "ev \<in> set (evaluate_words U transcribed expected)"
  shows "normalize_text U (word ev) = word ev \<and> word ev \<noteq> [] \<and>
         (\<forall>c \<in> set (word ev).
            lower_fixed U c \<and> \<not> is_space U c \<and> (is_alnum U c \<or> c = 0x5F \<or> c = 0x27))"
proof -
  let ?f = "re_sub_punct U (str_lower U expected)"
  let ?w = "word ev"
  from ev have "?w \<in> set (str_split U (normalize_text U expected))"
    by (auto simp: evaluate_words_def evaluate_loop_map)
  then have tok: "?w \<in> set (str_split U ?f)"
    by (simp add: split_normalize [OF sp])
  then have ne: "?w \<noteq> []" and nsp: "\<forall>c \<in> set ?w. \<not> is_space U c" and sub: "set ?w \<subseteq> set ?f"
    using str_split_tokens [of ?w U ?f] by auto
  have np: "\<forall>c \<in> set ?w. \<not> punct_class U c"
    using sub by (auto simp: re_sub_punct_def)
  have lf: "\<forall>c \<in> set ?w. lower_fixed U c"
    using sub do_lower_image [OF st, of _ "[]" expected]
    by (auto simp: re_sub_punct_def str_lower_def)
  have "str_lower U ?w = ?w"
    using lf by (simp add: str_lower_def do_lower_fixed)
  moreover have "re_sub_punct U ?w = ?w"
    using np by (simp add: re_sub_punct_def)
  moreover have "str_split U ?w = [?w]"
    using split_from_append [of ?w U "[]" "[]"] nsp ne by (simp add: str_split_def)
  ultimately have "normalize_text U ?w = ?w"
    by (simp add: normalize_text_def)
  moreover have "\<forall>c \<in> set ?w. is_alnum U c \<or> c = 0x5F \<or> c = 0x27"
    using np nsp by (auto simp: punct_class_def word_char_def)
  ultimately show ?thesis using ne nsp lf by simp
qed

theorem word_canonical_witness:
  "is_space py_ucd 0x20 \<and> lower_stable py_ucd \<and>
   evaluate_words py_ucd (str ''bom'') (str ''Bom DIA!'') =
     [\<lparr>word = str ''bom'', correct = True\<rparr>, \<lparr>word = str ''dia'', correct = False\<rparr>] \<and>
   normalize_text py_ucd (str ''dia'') = str ''dia''"
proof -
  have e: "evaluate_words py_ucd (str ''bom'') (str ''Bom DIA!'') =
     [\<lparr>word = str ''bom'', correct = True\<rparr>, \<lparr>word = str ''dia'', correct = False\<rparr>]"
    by (simp add: evaluate_words_def normalize_eval ucd_rows)
  then have "\<lparr>word = str ''dia'', correct = False\<rparr> \<in>
      set (evaluate_words py_ucd (str ''bom'') (str ''Bom DIA!''))"
    by simp
  from word_canonical [OF py_ucd_space py_ucd_stable this] e py_ucd_space py_ucd_stable
  show ?thesis
    by simp
qed

text \<open>
  The claim also says that a returned word has no upper-case letter. That part fails:
  \<^verbatim>\<open>str.lower\<close> leaves an upper-case letter without a lower-case mapping alone, and
  U+2102 DOUBLE-STRUCK CAPITAL C is one.
\<close>

theorem word_uppercase_counterexample:
  "evaluate_words py_ucd (str ''c'') [0x2102] = [\<lparr>word = [0x2102], correct = False\<rparr>] \<and>
   is_upper py_ucd 0x2102"
  by (simp add: evaluate_words_def normalize_eval ucd_rows)

section \<open>Properties of the normaliser\<close>

text \<open>
  Claim C4. Where U+0020 is white space, \<open>normalize_text\<close> is the three steps of the
  specification. The phrase "Ola, como vai?", written with U+00E1 for its third letter,
  normalises to "ola como vai" with the same letter, and the empty string normalises to
  the empty string.
\<close>

theorem normalize_text_refines:
  "(is_space U 0x20 \<longrightarrow> normalize_text U x = spec_normalize U x) \<and>
   normalize_text py_ucd (str (''Ol'' @ [CHR 0xE1] @ '', como vai?'')) =
     str (''ol'' @ [CHR 0xE1] @ '' como vai'') \<and>
   normalize_text U [] = []"
proof -
  have "re_sub_punct U t = spec_delete U t" for t
    by (simp add: re_sub_punct_def spec_delete_def punct_class_def word_char_def)
  then have "is_space U 0x20 \<Longrightarrow> normalize_text U x = spec_normalize U x"
    using join_split_collapse [of U _ "spec_delete U (str_lower U x)"]
    by (simp add: normalize_text_def spec_normalize_def str_split_def)
  moreover have "normalize_text py_ucd (str (''Ol'' @ [CHR 0xE1] @ '', como vai?'')) =
     str (''ol'' @ [CHR 0xE1] @ '' como vai'')"
    by (simp add: normalize_eval ucd_rows)
  moreover have "normalize_text U [] = []"
    by (simp add: normalize_eval)
  ultimately show ?thesis by blast
qed

theorem normalize_text_refines_witness:
  "is_space py_ucd 0x20 \<and>
   normalize_text py_ucd (str ''  Bom   dia!! '') = str ''bom dia'' \<and>
   spec_normalize py_ucd (str ''  Bom   dia!! '') = str ''bom dia''"
  using normalize_text_refines [of py_ucd "str ''  Bom   dia!! ''"] py_ucd_space
  by (simp add: normalize_eval ucd_rows)

text \<open>
  Claim C5. The normaliser is idempotent: normalising a normalised string changes nothing.
  The hypotheses are on the character database only: U+0020 is white space and is its own
  lower case, and lower-casing is stable.
\<close>

theorem normalize_text_idempotent:
  assumes "is_space U 0x20" and "lower_fixed U 0x20" and "lower_stable U"
  shows "normalize_text U (normalize_text U x) = normalize_text U x"
  using assms by (rule normalize_idem)

theorem normalize_text_idempotent_witness:
  "is_space py_ucd 0x20 \<and> lower_fixed py_ucd 0x20 \<and> lower_stable py_ucd \<and>
   normalize_text py_ucd (normalize_text py_ucd (str (''Ol'' @ [CHR 0xE1] @ '', como vai?''))) =
     str (''ol'' @ [CHR 0xE1] @ '' como vai'')"
proof -
  have "normalize_text py_ucd (str (''Ol'' @ [CHR 0xE1] @ '', como vai?'')) =
      str (''ol'' @ [CHR 0xE1] @ '' como vai'')"
    by (simp add: normalize_eval ucd_rows)
  then show ?thesis
    using normalize_text_idempotent [OF py_ucd_space py_ucd_space_fixed py_ucd_stable,
        of "str (''Ol'' @ [CHR 0xE1] @ '', como vai?'')"]
      py_ucd_space py_ucd_space_fixed py_ucd_stable
    by simp
qed

section \<open>Properties of the phrase catalogue\<close>

lemma find_phrase_Inr:
  "distinct (map id' ps) \<Longrightarrow> find_phrase ps i = Inr p \<longleftrightarrow> p \<in> set ps \<and> id' p = i"
  by (induction ps) (auto simp: image_iff)

lemma find_phrase_Inl:
  "find_phrase ps i = Inl e \<longleftrightarrow>
     e = HTTPException 404 (str ''Phrase not found'') \<and> i \<notin> id' ` set ps"
  by (induction ps) auto

lemma catalogue_ids: "map id' PORTUGUESE_PHRASES = [1, 2, 3, 4, 5, 6, 7, 8, 9, 10]"
  by (simp add: PORTUGUESE_PHRASES_def)

text \<open>
  Claim C8. \<open>get_phrases\<close> returns the whole catalogue in the order of its definition (ids
  1 to 10). \<open>get_phrase\<close> returns a phrase exactly when it is a phrase of the catalogue
  with the requested id, and there is at most one such phrase; it fails, with status 404,
  exactly when the catalogue has no phrase with that id, as for id 999.
\<close>

theorem catalogue_lookup:
  "get_phrases = PORTUGUESE_PHRASES \<and>
   map id' get_phrases = [1, 2, 3, 4, 5, 6, 7, 8, 9, 10] \<and>
   (get_phrase phrase_id = Inr p \<longleftrightarrow> p \<in> set PORTUGUESE_PHRASES \<and> id' p = phrase_id) \<and>
   (\<forall>q \<in> set PORTUGUESE_PHRASES. id' q = id' p \<and> p \<in> set PORTUGUESE_PHRASES \<longrightarrow> q = p) \<and>
   (get_phrase phrase_id = Inl e \<longleftrightarrow>
      e = HTTPException 404 (str ''Phrase not found'') \<and>
      phrase_id \<notin> id' ` set PORTUGUESE_PHRASES) \<and>
   get_phrase 999 = Inl (HTTPException 404 (str ''Phrase not found''))"
proof -
  have d: "distinct (map id' PORTUGUESE_PHRASES)"
    by (simp add: catalogue_ids)
  have "\<forall>q \<in> set PORTUGUESE_PHRASES. id' q = id' p \<and> p \<in> set PORTUGUESE_PHRASES \<longrightarrow> q = p"
    using d by (auto simp: distinct_map inj_on_def)
  moreover have "get_phrase 999 = Inl (HTTPException 404 (str ''Phrase not found''))"
    by (simp add: get_phrase_def PORTUGUESE_PHRASES_def)
  ultimately show ?thesis
    using find_phrase_Inr [OF d] find_phrase_Inl
    by (simp add: get_phrases_def get_phrase_def catalogue_ids)
qed

theorem catalogue_lookup_witness:
  "get_phrase 2 = Inr \<lparr>id' = 2, phrase = str ''Bom dia'', translation = str ''Good morning''\<rparr> \<and>
   get_phrase 0 = Inl (HTTPException 404 (str ''Phrase not found''))"
proof -
  let ?p = "\<lparr>id' = 2, phrase = str ''Bom dia'', translation = str ''Good morning''\<rparr>"
  have "?p \<in> set PORTUGUESE_PHRASES \<and> id' ?p = 2"
    by (simp add: PORTUGUESE_PHRASES_def)
  moreover have "(0::int) \<notin> id' ` set PORTUGUESE_PHRASES"
    by (simp add: PORTUGUESE_PHRASES_def)
  ultimately show ?thesis
    using catalogue_lookup [of 2 ?p] catalogue_lookup [of 0 _ "HTTPException 404 (str ''Phrase not found'')"]
    by simp
qed

section \<open>Rounding errors of double-precision arithmetic\<close>

lemma pow2_powi: "pow2 k = 2 powi k"
  by (simp add: pow2_def power_int_def field_simps)

lemma pow2_pos: "0 < pow2 k"
  by (simp add: pow2_powi)

lemma pow2_mono: "a \<le> b \<Longrightarrow> pow2 a \<le> pow2 b"
  by (simp add: pow2_powi power_int_increasing)

lemma pow2_less_exp: "pow2 a < pow2 b \<Longrightarrow> a < b"
  using pow2_mono [of b a] by (cases "a < b") auto

lemma rne_err: "\<bar>of_int (rne q) - q\<bar> \<le> 1 / 2"
proof -
  have "of_int \<lfloor>q\<rfloor> \<le> q" "q < of_int \<lfloor>q\<rfloor> + 1" by linarith+
  then show ?thesis by (auto simp: rne_def Let_def)
qed

lemma ilog2_le:
  assumes "0 < q"
  shows "pow2 (ilog2 q) \<le> q"
proof -
  obtain a b where ab: "quotient_of q = (a, b)" by (cases "quotient_of q")
  then have q: "q = of_int a / of_int b" and b: "0 < b"
    using quotient_of_div quotient_of_denom_pos by blast+
  then have a: "0 < a"
    using assms by (simp add: zero_less_divide_iff)
  let ?la = "bitlen a" and ?lb = "bitlen b"
  have la: "1 \<le> ?la" and lb: "1 \<le> ?lb"
    using a b bitlen_nonneg [of a] bitlen_nonneg [of b] bitlen_eq_zero_iff [of a]
      bitlen_eq_zero_iff [of b] by linarith+
  have "(2::int) ^ nat (?la - 1) \<le> a" and "b < 2 ^ nat ?lb"
    using bitlen_bounds [OF a] bitlen_bounds [OF b] by simp_all
  then have "(of_int (2 ^ nat (?la - 1)) :: rat) \<le> of_int a" and "(of_int b :: rat) \<le> of_int (2 ^ nat ?lb)"
    by (simp_all only: of_int_le_iff)
  then have A: "(2::rat) powi (?la - 1) \<le> of_int a" and B: "(of_int b :: rat) \<le> 2 powi ?lb"
    using la lb by (simp_all add: power_int_def)
  have "(2::rat) powi (?la - 1 - ?lb) = 2 powi (?la - 1) / 2 powi ?lb"
    by (rule power_int_diff) simp
  also have "\<dots> \<le> of_int a / of_int b"
    using A B a b by (intro frac_le) simp_all
  finally have low: "pow2 (?la - ?lb - 1) \<le> q"
    by (simp add: pow2_powi q algebra_simps)
  show ?thesis
    using low by (simp add: ilog2_def ab Let_def)
qed

lemma to_double_err:
  assumes lt: "\<bar>q\<bar> < pow2 n" and n: "- 1021 \<le> n"
  shows "\<bar>to_double q - q\<bar> \<le> pow2 (n - 54)"
proof (cases "q = 0")
  case True
  then show ?thesis using pow2_pos [of "n - 54"] by (simp add: to_double_def)
next
  case False
  let ?e = "max (ilog2 \<bar>q\<bar> - 52) (- 1074)"
  let ?u = "pow2 ?e"
  have "pow2 (ilog2 \<bar>q\<bar>) \<le> \<bar>q\<bar>"
    using False by (intro ilog2_le) simp
  then have "ilog2 \<bar>q\<bar> < n"
    using lt by (intro pow2_less_exp) simp
  then have e: "?e \<le> n - 53" using n by simp
  have u: "0 < ?u" by (rule pow2_pos)
  have "to_double q - q = (of_int (rne (q / ?u)) - q / ?u) * ?u"
    using False u by (simp add: to_double_def Let_def algebra_simps)
  then have "\<bar>to_double q - q\<bar> = \<bar>of_int (rne (q / ?u)) - q / ?u\<bar> * ?u"
    using u by (simp add: abs_mult)
  also have "\<dots> \<le> 1 / 2 * ?u"
    using rne_err [of "q / ?u"] u by (intro mult_right_mono) simp_all
  also have "\<dots> \<le> 1 / 2 * pow2 (n - 53)"
    using pow2_mono [OF e] by simp
  also have "\<dots> = pow2 (n - 54)"
  proof -
    have "(2::rat) powi (n - 53) = 2 powi (n - 54 + 1)" by simp
    also have "\<dots> = 2 powi (n - 54) * 2" by (rule power_int_add_1) simp
    finally show ?thesis by (simp add: pow2_powi)
  qed
  finally show ?thesis .
qed

section \<open>Properties of the request handler\<close>

lemma rne_of_int: "rne (of_int n) = n"
  by (simp add: rne_def)

lemma to_double_1: "to_double 1 = 1"
  by code_simp

lemma to_double_100: "to_double 100 = 100"
  by code_simp

lemma score_all: "0 < n \<Longrightarrow> round1 (float_mul (float_div n n) 100) = 100"
proof -
  assume "0 < n"
  then have "float_div n n = 1" by (simp add: float_div_def to_double_1)
  moreover have "rne (100 * 10) = 1000" using rne_of_int [of 1000] by simp
  ultimately show ?thesis
    by (simp add: float_mul_def round1_def to_double_100)
qed

lemma round1_0: "round1 0 = 0"
  using rne_of_int [of 0] by (simp add: round1_def to_double_def)

lemma count_all: "length (filter P xs) = length xs \<longleftrightarrow> (\<forall>x \<in> set xs. P x)"
proof -
  have "length (filter P xs) + length (filter (\<lambda>x. \<not> P x) xs) = length xs"
    by (rule sum_length_filter_compl)
  then have "length (filter P xs) = length xs \<longleftrightarrow> filter (\<lambda>x. \<not> P x) xs = []"
    by auto
  then show ?thesis by (simp add: filter_empty_conv)
qed

lemma transcribe_Inr:
  "fst (transcribe_audio U convert k audio_read expected) = Inr r \<Longrightarrow>
     \<exists>b tr. audio_read = Inr b \<and> convert k b = Inr tr \<and> r = transcription_response U tr expected"
  by (auto simp: transcribe_audio_def transcribe_try_def split: sum.splits exn.splits)

lemma response_fields:
  "word_evaluations (transcription_response U tr expected) =
     evaluate_words U (transcribed_text (transcription_response U tr expected)) expected"
  "all_correct (transcription_response U tr expected) \<longleftrightarrow>
     (\<forall>ev \<in> set (word_evaluations (transcription_response U tr expected)). correct ev)"
  "expected_phrase (transcription_response U tr expected) = expected"
  by (simp_all add: transcription_response_def Let_def count_all)

lemma response_score:
  "overall_score (transcription_response U tr expected) =
     (let evs = word_evaluations (transcription_response U tr expected)
      in round1 (if 0 < length evs
                 then float_mul (float_div (length (filter correct evs)) (length evs)) 100
                 else 0))"
  by (simp add: transcription_response_def Let_def)

text \<open>
  Claim C7. In every successful response, \<open>all_correct\<close> holds exactly when every word
  evaluation is correct. When the expected phrase normalises to no word, there are no
  evaluations, \<open>all_correct\<close> holds and the score is 0.
\<close>

theorem all_correct_iff:
  assumes "fst (transcribe_audio U convert k audio_read expected) = Inr r"
  shows "(all_correct r \<longleftrightarrow> (\<forall>ev \<in> set (word_evaluations r). correct ev)) \<and>
         (str_split U (normalize_text U expected) = [] \<longrightarrow>
            word_evaluations r = [] \<and> all_correct r \<and> overall_score r = 0)"
proof -
  from transcribe_Inr [OF assms] obtain tr where r: "r = transcription_response U tr expected"
    by blast
  have "str_split U (normalize_text U expected) = [] \<Longrightarrow> word_evaluations r = []"
    unfolding r response_fields(1) by (simp add: evaluate_words_def)
  then show ?thesis
    using response_fields(2) [of U tr expected] response_score [of U tr expected]
    by (auto simp: r round1_0)
qed

theorem all_correct_iff_witness:
  "fst (transcribe_audio py_ucd (scripted_provider [heard (str ''bom dia'')]) 0 (Inr []) (str ''?!'')) =
     Inr \<lparr>transcribed_text = str ''bom dia'', expected_phrase = str ''?!'',
          word_evaluations = [], overall_score = 0, all_correct = True\<rparr>"
proof -
  let ?r = "transcription_response py_ucd (Transcription (Some (str ''bom dia'')) (str ''bom dia'')) (str ''?!'')"
  have t: "fst (transcribe_audio py_ucd (scripted_provider [heard (str ''bom dia'')]) 0 (Inr []) (str ''?!'')) = Inr ?r"
    by (simp add: transcribe_audio_def transcribe_try_def scripted_provider_def heard_def)
  have e: "str_split py_ucd (normalize_text py_ucd (str ''?!'')) = []"
    by (simp add: normalize_eval ucd_rows)
  have "transcribed_text ?r = str ''bom dia''" "expected_phrase ?r = str ''?!''"
    by (simp_all add: transcription_response_def Let_def)
  then have "?r = \<lparr>transcribed_text = str ''bom dia'', expected_phrase = str ''?!'',
          word_evaluations = [], overall_score = 0, all_correct = True\<rparr>"
    using all_correct_iff [OF t] e by (cases ?r) simp
  then show ?thesis using t by simp
qed

lemmas handler_eval = transcribe_audio_def transcribe_try_def scripted_provider_def heard_def

text \<open>
  Claim C3, as the code has it. When every word of the normalised expected phrase occurs
  among the words of the normalised transcription, \<open>all_correct\<close> holds; the score is 100
  when the expected phrase has at least one word, and 0 when it has none.
\<close>

theorem containment_all_correct:
  assumes ok: "fst (transcribe_audio U convert k audio_read expected) = Inr r"
    and sub: "set (str_split U (normalize_text U expected)) \<subseteq>
              set (str_split U (normalize_text U (transcribed_text r)))"
  shows "all_correct r \<and>
         overall_score r = (if str_split U (normalize_text U expected) = [] then 0 else 100)"
proof -
  from transcribe_Inr [OF ok] obtain tr where r: "r = transcription_response U tr expected"
    by blast
  let ?ws = "str_split U (normalize_text U expected)"
  let ?evs = "word_evaluations r"
  have evs: "?evs = evaluate_words U (transcribed_text r) expected"
    unfolding r by (rule response_fields(1))
  then have all: "\<forall>ev \<in> set ?evs. correct ev"
    using sub by (auto simp: evaluate_words_def evaluate_loop_map)
  then have ac: "all_correct r"
    using response_fields(2) [of U tr expected] by (simp add: r)
  have len: "length ?evs = length ?ws"
    using evs by (simp add: evaluate_words_def evaluate_loop_map)
  have cnt: "length (filter correct ?evs) = length ?evs"
    using all by (simp add: count_all)
  have sc: "overall_score r =
      round1 (if 0 < length ?evs
              then float_mul (float_div (length (filter correct ?evs)) (length ?evs)) 100
              else 0)"
    using response_score [of U tr expected] by (simp only: r Let_def)
  have "overall_score r = (if ?ws = [] then 0 else 100)"
  proof (cases "?ws = []")
    case True
    then have "length ?evs = 0" using len by simp
    then show ?thesis using sc True by (simp add: round1_0)
  next
    case False
    then have pos: "0 < length ?evs" using len by simp
    then have "overall_score r = round1 (float_mul (float_div (length ?evs) (length ?evs)) 100)"
      using sc cnt by (simp only: if_True)
    then show ?thesis using score_all [OF pos] False by simp
  qed
  then show ?thesis using ac by simp
qed

theorem containment_all_correct_witness:
  "fst (transcribe_audio py_ucd (scripted_provider [heard (str ''dia bom'')]) 0 (Inr []) (str ''Bom dia'')) =
     Inr \<lparr>transcribed_text = str ''dia bom'', expected_phrase = str ''Bom dia'',
          word_evaluations = [\<lparr>word = str ''bom'', correct = True\<rparr>, \<lparr>word = str ''dia'', correct = True\<rparr>],
          overall_score = 100, all_correct = True\<rparr>"
proof -
  let ?r = "transcription_response py_ucd (Transcription (Some (str ''dia bom'')) (str ''dia bom'')) (str ''Bom dia'')"
  have t: "fst (transcribe_audio py_ucd (scripted_provider [heard (str ''dia bom'')]) 0 (Inr []) (str ''Bom dia'')) = Inr ?r"
    by (simp add: handler_eval)
  have f: "transcribed_text ?r = str ''dia bom''" "expected_phrase ?r = str ''Bom dia''"
    by (simp_all add: transcription_response_def Let_def)
  have w: "word_evaluations ?r = [\<lparr>word = str ''bom'', correct = True\<rparr>, \<lparr>word = str ''dia'', correct = True\<rparr>]"
    unfolding response_fields(1) f by (simp add: evaluate_words_def normalize_eval ucd_rows)
  have e: "str_split py_ucd (normalize_text py_ucd (str ''Bom dia'')) = [str ''bom'', str ''dia'']"
    by (simp add: normalize_eval ucd_rows)
  have s: "str_split py_ucd (normalize_text py_ucd (str ''dia bom'')) = [str ''dia'', str ''bom'']"
    by (simp add: normalize_eval ucd_rows)
  have "all_correct ?r \<and> overall_score ?r = 100"
    using containment_all_correct [OF t] unfolding f e s by (simp add: str_def)
  then have "?r = \<lparr>transcribed_text = str ''dia bom'', expected_phrase = str ''Bom dia'',
          word_evaluations = [\<lparr>word = str ''bom'', correct = True\<rparr>, \<lparr>word = str ''dia'', correct = True\<rparr>],
          overall_score = 100, all_correct = True\<rparr>"
    using f w by (cases ?r) simp
  then show ?thesis using t by simp
qed

text \<open>
  The claim promises the score 100 for every expected phrase. An expected phrase of
  punctuation only, such as "...", normalises to no word: it satisfies the containment
  condition, \<open>all_correct\<close> holds, and its score is 0, not 100, because the handler guards
  the division.
\<close>

theorem containment_score_counterexample:
  "str_split py_ucd (normalize_text py_ucd (str ''...'')) = [] \<and>
   fst (transcribe_audio py_ucd (scripted_provider [heard (str ''bom dia'')]) 0
          (Inr [1, 2, 3]) (str ''...'')) =
     Inr \<lparr>transcribed_text = str ''bom dia'', expected_phrase = str ''...'',
          word_evaluations = [], overall_score = 0, all_correct = True\<rparr>"
  by (simp add: handler_eval transcription_response_def evaluate_words_def normalize_eval
      ucd_rows round1_0)

text \<open>
  Claim C9. A failure of the upload read or of the provider gives the error with status
  500 and the detail "Transcription failed: " followed by the message of the exception,
  and no response; a provider answer gives the complete response, and no error. The
  provider is called at most once (not at all when the read fails), and the result depends
  on the provider through the answer to that one call only: nothing is retried.
\<close>

theorem transcribe_failure:
  "(audio_read = Inl (Exception msg) \<longrightarrow>
      transcribe_audio U convert k audio_read expected =
        (Inl (HTTPException 500 (str ''Transcription failed: '' @ msg)), k)) \<and>
   (audio_read = Inr audio \<and> convert k audio = Inl (Exception msg) \<longrightarrow>
      transcribe_audio U convert k audio_read expected =
        (Inl (HTTPException 500 (str ''Transcription failed: '' @ msg)), k + 1)) \<and>
   (audio_read = Inr audio \<and> convert k audio = Inr tr \<longrightarrow>
      transcribe_audio U convert k audio_read expected =
        (Inr (transcription_response U tr expected), k + 1)) \<and>
   ((\<forall>b. convert' k b = convert k b) \<longrightarrow>
      transcribe_audio U convert' k audio_read expected =
      transcribe_audio U convert k audio_read expected)"
  by (auto simp: transcribe_audio_def transcribe_try_def split: sum.splits exn.splits)

theorem transcribe_failure_witness:
  "transcribe_audio py_ucd
     (scripted_provider [Inl (Exception (str ''quota exceeded'')), heard (str ''bom dia'')])
     0 (Inr [1, 2, 3]) (str ''Bom dia'') =
     (Inl (HTTPException 500 (str ''Transcription failed: quota exceeded'')), 1) \<and>
   transcribe_audio py_ucd (scripted_provider [heard (str ''bom dia'')])
     0 (Inl (Exception (str ''read error''))) (str ''Bom dia'') =
     (Inl (HTTPException 500 (str ''Transcription failed: read error'')), 0)"
proof -
  let ?p = "scripted_provider [Inl (Exception (str ''quota exceeded'')), heard (str ''bom dia'')]"
  have "?p 0 [1, 2, 3] = Inl (Exception (str ''quota exceeded''))"
    by (simp add: scripted_provider_def)
  then show ?thesis
    using transcribe_failure [of "Inr [1, 2, 3]" "str ''quota exceeded''" py_ucd ?p 0 "str ''Bom dia''" "[1, 2, 3]"]
      transcribe_failure [of "Inl (Exception (str ''read error''))" "str ''read error''" py_ucd
        "scripted_provider [heard (str ''bom dia'')]" 0 "str ''Bom dia''"]
    by (simp add: str_def)
qed

lemma pow2_values: "pow2 0 = 1" "pow2 7 = 128" "pow2 (- 54) = 1 / 2 ^ 54" "pow2 (- 47) = 1 / 2 ^ 47"
  by (simp_all add: pow2_def)

lemma combine_err:
  fixes x1 x2 q e j :: rat
  assumes "\<bar>x1 - q\<bar> \<le> e / 256" and "\<bar>x2 - x1 * 100\<bar> \<le> e / 2" and "\<bar>j - x2 * 10\<bar> \<le> 1 / 2"
    and "0 < e" and "e \<le> 1 / 1000" and "0 \<le> q" and "q \<le> 1"
  shows "\<bar>j / 10 - 100 * q\<bar> \<le> 1 / 20 + e" and "- 1 < j" and "j < 1001"
  using assms by linarith+

lemma score_bound:
  assumes t: "0 < t" and c: "c \<le> t"
  shows "\<exists>j. 0 \<le> j \<and> j \<le> 1000 \<and>
           round1 (float_mul (float_div c t) 100) = to_double (of_int j / 10) \<and>
           \<bar>(of_int j :: rat) / 10 - 100 * of_nat c / of_nat t\<bar> \<le> 1 / 20 + 1 / 2 ^ 46"
proof -
  let ?q = "of_nat c / of_nat t :: rat"
  let ?x1 = "float_div c t"
  let ?x2 = "float_mul ?x1 100"
  let ?j = "rne (?x2 * 10)"
  have q: "0 \<le> ?q" "?q \<le> 1" using t c by simp_all
  have e1: "\<bar>?x1 - ?q\<bar> \<le> 1 / 2 ^ 54"
  proof (cases "c = t")
    case True
    then show ?thesis using t by (simp add: float_div_def to_double_1)
  next
    case False
    then have "?q < 1" using t c by simp
    then have "\<bar>?q\<bar> < pow2 0" using q by (simp add: pow2_values)
    from to_double_err [OF this] show ?thesis
      by (simp add: float_div_def pow2_values)
  qed
  have small: "(1::rat) / 2 ^ 54 \<le> 1 / 100" by simp
  have "\<bar>?x1\<bar> \<le> 1 + 1 / 100" using e1 q small by linarith
  then have "\<bar>?x1 * 100\<bar> < pow2 7" by (simp add: pow2_values abs_mult)
  from to_double_err [OF this] have e2: "\<bar>?x2 - ?x1 * 100\<bar> \<le> 1 / 2 ^ 47"
    by (simp add: float_mul_def pow2_values)
  have e3: "\<bar>of_int ?j - ?x2 * 10\<bar> \<le> 1 / 2" by (rule rne_err)
  have n54: "(1::rat) / 2 ^ 54 = 1 / 2 ^ 46 / 256" and n47: "(1::rat) / 2 ^ 47 = 1 / 2 ^ 46 / 2"
    by simp_all
  have p46: "(0::rat) < 1 / 2 ^ 46" "(1::rat) / 2 ^ 46 \<le> 1 / 1000" by simp_all
  note ce = combine_err [OF e1 [unfolded n54] e2 [unfolded n47] e3 p46 q]
  have b: "\<bar>of_int ?j / 10 - 100 * ?q\<bar> \<le> 1 / 20 + 1 / 2 ^ 46"
    by (rule ce(1))
  have "- 1 < (of_int ?j :: rat)" "(of_int ?j :: rat) < 1001"
    by (rule ce(2), rule ce(3))
  then have "- 1 < ?j" "?j < 1001"
    by simp_all
  then have "0 \<le> ?j" "?j \<le> 1000" by simp_all
  moreover have "round1 ?x2 = to_double (of_int ?j / 10)"
    by (simp only: round1_def)
  moreover have "\<bar>(of_int ?j :: rat) / 10 - 100 * of_nat c / of_nat t\<bar> \<le> 1 / 20 + 1 / 2 ^ 46"
    using b by (simp only: times_divide_eq_right)
  ultimately show ?thesis by blast
qed

text \<open>
  Claim C2, as the code has it. In a successful response the score is 0 when the expected
  phrase normalises to no word. Otherwise it is \<^verbatim>\<open>round(count / total * 100, 1)\<close> in
  double precision, in the order of the code: the quotient is rounded to a double, the
  product by 100 is rounded again, and the result is rounded to one decimal place. This
  score is the double nearest to \<open>j / 10\<close> for an integer \<open>j\<close> between 0 and 1000, and
  \<open>j / 10\<close> differs from the exact percentage by at most \<open>0.05 + 2^-46\<close>. Two correct
  words out of three give the double nearest to 66.7.
\<close>

theorem score_rounding:
  assumes ok: "fst (transcribe_audio U convert k audio_read expected) = Inr r"
  shows "(str_split U (normalize_text U expected) = [] \<longrightarrow> overall_score r = 0) \<and>
         (word_evaluations r \<noteq> [] \<longrightarrow>
            overall_score r =
              round1 (float_mul (float_div (length (filter correct (word_evaluations r)))
                (length (word_evaluations r))) 100) \<and>
            (\<exists>j. 0 \<le> j \<and> j \<le> 1000 \<and> overall_score r = to_double (of_int j / 10) \<and>
               \<bar>(of_int j :: rat) / 10 -
                 100 * of_nat (length (filter correct (word_evaluations r))) /
                   of_nat (length (word_evaluations r))\<bar> \<le> 1 / 20 + 1 / 2 ^ 46)) \<and>
         round1 (float_mul (float_div 2 3) 100) = to_double (667 / 10)"
proof -
  from transcribe_Inr [OF ok] obtain tr where r: "r = transcription_response U tr expected"
    by blast
  let ?evs = "word_evaluations r"
  have sc: "overall_score r =
      round1 (if 0 < length ?evs
              then float_mul (float_div (length (filter correct ?evs)) (length ?evs)) 100
              else 0)"
    using response_score [of U tr expected] by (simp only: r Let_def)
  have "str_split U (normalize_text U expected) = [] \<Longrightarrow> ?evs = []"
    unfolding r response_fields(1) by (simp add: evaluate_words_def)
  then have A: "str_split U (normalize_text U expected) = [] \<longrightarrow> overall_score r = 0"
    using sc by (simp add: round1_0)
  have B: "overall_score r =
      round1 (float_mul (float_div (length (filter correct ?evs)) (length ?evs)) 100)"
    if "?evs \<noteq> []"
    using sc that by simp
  have C: "\<exists>j. 0 \<le> j \<and> j \<le> 1000 \<and> overall_score r = to_double (of_int j / 10) \<and>
               \<bar>(of_int j :: rat) / 10 - 100 * of_nat (length (filter correct ?evs)) /
                   of_nat (length ?evs)\<bar> \<le> 1 / 20 + 1 / 2 ^ 46"
    if "?evs \<noteq> []"
    using score_bound [of "length ?evs" "length (filter correct ?evs)"] that
    unfolding B [OF that] by simp
  have D: "round1 (float_mul (float_div 2 3) 100) = to_double (667 / 10)"
    by code_simp
  show ?thesis using A B C D by blast
qed

theorem score_rounding_witness:
  "fst (transcribe_audio py_ucd (scripted_provider [heard (str ''bom dia'')]) 0 (Inr []) (str ''Bom dia, Ana'')) =
     Inr \<lparr>transcribed_text = str ''bom dia'', expected_phrase = str ''Bom dia, Ana'',
          word_evaluations = [\<lparr>word = str ''bom'', correct = True\<rparr>,
            \<lparr>word = str ''dia'', correct = True\<rparr>, \<lparr>word = str ''ana'', correct = False\<rparr>],
          overall_score = to_double (667 / 10), all_correct = False\<rparr>"
proof -
  let ?tr = "Transcription (Some (str ''bom dia'')) (str ''bom dia'')"
  let ?r = "transcription_response py_ucd ?tr (str ''Bom dia, Ana'')"
  have t: "fst (transcribe_audio py_ucd (scripted_provider [heard (str ''bom dia'')]) 0 (Inr []) (str ''Bom dia, Ana'')) = Inr ?r"
    by (simp add: handler_eval)
  have f: "transcribed_text ?r = str ''bom dia''" "expected_phrase ?r = str ''Bom dia, Ana''"
    by (simp_all add: transcription_response_def Let_def)
  have w: "word_evaluations ?r = [\<lparr>word = str ''bom'', correct = True\<rparr>,
            \<lparr>word = str ''dia'', correct = True\<rparr>, \<lparr>word = str ''ana'', correct = False\<rparr>]"
    unfolding response_fields(1) f by (simp add: evaluate_words_def normalize_eval ucd_rows)
  have a: "\<not> all_correct ?r"
    unfolding response_fields(2) w by simp
  have l: "length (word_evaluations ?r) = 3" and c: "length (filter correct (word_evaluations ?r)) = 2"
    by (simp_all add: w)
  have ne: "word_evaluations ?r \<noteq> []"
    by (simp add: w)
  from score_rounding [OF t] ne have
    "overall_score ?r = round1 (float_mul (float_div (length (filter correct (word_evaluations ?r)))
       (length (word_evaluations ?r))) 100)"
    and "round1 (float_mul (float_div 2 3) 100) = to_double (667 / 10)"
    by blast+
  then have "overall_score ?r = to_double (667 / 10)"
    by (simp only: l c)
  then have "?r = \<lparr>transcribed_text = str ''bom dia'', expected_phrase = str ''Bom dia, Ana'',
          word_evaluations = [\<lparr>word = str ''bom'', correct = True\<rparr>,
            \<lparr>word = str ''dia'', correct = True\<rparr>, \<lparr>word = str ''ana'', correct = False\<rparr>],
          overall_score = to_double (667 / 10), all_correct = False\<rparr>"
    using f w a by (cases ?r) simp
  then show ?thesis using t by simp
qed

lemma split_spaced:
  assumes "is_space U sp" and "\<forall>w \<in> set ws. w \<noteq> [] \<and> (\<forall>c \<in> set w. \<not> is_space U c)"
  shows "split_from U [] (concat (map (\<lambda>w. w @ [sp]) ws)) = ws"
  using assms(2)
proof (induction ws)
  case Nil
  then show ?case by simp
next
  case (Cons w ws)
  let ?rest = "concat (map (\<lambda>w. w @ [sp]) ws)"
  have "split_from U [] (w @ sp # ?rest) = split_from U w (sp # ?rest)"
    using Cons.prems split_from_append [of w U "[]" "sp # ?rest"] by simp
  then show ?case using Cons assms(1) by simp
qed

lemma eighty_words_chars: "set eighty_words \<subseteq> {0x61, 0x62, 0x20}"
  by (auto simp: eighty_words_def str_def)

lemma eighty_words_split:
  "str_split py_ucd (normalize_text py_ucd eighty_words) =
     replicate 23 (str ''a'') @ replicate 57 (str ''b'')"
proof -
  have "lower_fixed py_ucd 0x61" "lower_fixed py_ucd 0x62" "lower_fixed py_ucd 0x20"
    by (simp_all add: lower_fixed_def ucd_rows)
  then have "\<forall>c \<in> set eighty_words. lower_fixed py_ucd c"
    using eighty_words_chars by blast
  then have lo: "str_lower py_ucd eighty_words = eighty_words"
    by (simp add: str_lower_def do_lower_fixed)
  have "\<not> punct_class py_ucd 0x61" "\<not> punct_class py_ucd 0x62" "\<not> punct_class py_ucd 0x20"
    by (simp_all add: punct_class_def word_char_def ucd_rows)
  then have "\<forall>c \<in> set eighty_words. \<not> punct_class py_ucd c"
    using eighty_words_chars by blast
  then have re: "re_sub_punct py_ucd eighty_words = eighty_words"
    by (simp add: re_sub_punct_def)
  have form: "eighty_words =
      concat (map (\<lambda>w. w @ [0x20]) (replicate 23 (str ''a'') @ replicate 57 (str ''b'')))"
    by (simp add: eighty_words_def str_def map_replicate_const)
  have "\<not> is_space py_ucd 0x61" "\<not> is_space py_ucd 0x62"
    by (simp_all add: ucd_rows)
  then have "\<forall>w \<in> set (replicate 23 (str ''a'') @ replicate 57 (str ''b'')).
          w \<noteq> [] \<and> (\<forall>c \<in> set w. \<not> is_space py_ucd c)"
    by (auto simp: str_def)
  from split_spaced [OF py_ucd_space this] have
    "str_split py_ucd eighty_words = replicate 23 (str ''a'') @ replicate 57 (str ''b'')"
    unfolding str_split_def form [symmetric] .
  then show ?thesis
    by (simp add: split_normalize [OF py_ucd_space] lo re)
qed

lemma eighty_evaluations:
  "evaluate_words py_ucd (str ''a'') eighty_words =
     replicate 23 \<lparr>word = str ''a'', correct = True\<rparr> @
     replicate 57 \<lparr>word = str ''b'', correct = False\<rparr>"
proof -
  have "str_split py_ucd (normalize_text py_ucd (str ''a'')) = [str ''a'']"
    by (simp add: normalize_eval ucd_rows)
  moreover have "str ''b'' \<noteq> str ''a''" by (simp add: str_def)
  ultimately show ?thesis
    by (simp add: evaluate_words_def evaluate_loop_map eighty_words_split Let_def)
qed

text \<open>
  The claim gives the score as \<^verbatim>\<open>round(100 * count / total, 1)\<close>. With 23 correct words
  out of 80 the exact percentage is 28.75, a tie between 28.7 and 28.8, and the formula of
  the claim gives 28.8 (in double precision and in exact arithmetic alike). The handler
  divides first: 23 / 80 * 100 is the double just below 28.75, and the score is 28.7.
\<close>

theorem score_formula_counterexample:
  "fst (transcribe_audio py_ucd (scripted_provider [heard (str ''a'')]) 0 (Inr []) eighty_words) =
     Inr (transcription_response py_ucd (Transcription (Some (str ''a'')) (str ''a'')) eighty_words) \<and>
   length (word_evaluations
     (transcription_response py_ucd (Transcription (Some (str ''a'')) (str ''a'')) eighty_words)) = 80 \<and>
   length (filter correct (word_evaluations
     (transcription_response py_ucd (Transcription (Some (str ''a'')) (str ''a'')) eighty_words))) = 23 \<and>
   overall_score
     (transcription_response py_ucd (Transcription (Some (str ''a'')) (str ''a'')) eighty_words) =
     to_double (287 / 10) \<and>
   spec_overall_score 23 80 = to_double (288 / 10) \<and>
   rne (1000 * 23 / 80) = 288 \<and>
   to_double (287 / 10) \<noteq> to_double (288 / 10)"
proof -
  let ?r = "transcription_response py_ucd (Transcription (Some (str ''a'')) (str ''a'')) eighty_words"
  have t: "fst (transcribe_audio py_ucd (scripted_provider [heard (str ''a'')]) 0 (Inr []) eighty_words) = Inr ?r"
    by (simp add: handler_eval)
  have "transcribed_text ?r = str ''a''"
    by (simp add: transcription_response_def Let_def)
  then have w: "word_evaluations ?r = replicate 23 \<lparr>word = str ''a'', correct = True\<rparr> @
     replicate 57 \<lparr>word = str ''b'', correct = False\<rparr>"
    using response_fields(1) [of py_ucd "Transcription (Some (str ''a'')) (str ''a'')" eighty_words]
    by (simp add: eighty_evaluations)
  have l: "length (word_evaluations ?r) = 80" and c: "length (filter correct (word_evaluations ?r)) = 23"
    unfolding w by simp_all
  have "overall_score ?r = round1 (float_mul (float_div 23 80) 100)"
    using response_score [of py_ucd "Transcription (Some (str ''a'')) (str ''a'')" eighty_words]
    unfolding Let_def l c by simp
  moreover have "round1 (float_mul (float_div 23 80) 100) = to_double (287 / 10)"
    by code_simp
  moreover have "spec_overall_score 23 80 = to_double (288 / 10)"
  proof -
    have "spec_overall_score 23 80 = round1 (to_double (2300 / 80))"
      by (simp add: spec_overall_score_def float_div_def)
    also have "\<dots> = to_double (288 / 10)"
      by code_simp
    finally show ?thesis .
  qed
  moreover have "rne (1000 * 23 / 80) = 288"
    by code_simp
  moreover have "to_double (287 / 10) \<noteq> to_double (288 / 10)"
    by code_simp
  ultimately show ?thesis using t l c by simp
qed

end
